theory Spec2Isabelle
  imports Main
begin

section \<open>Python values used by \<^verbatim>\<open>upload_youtube.py\<close>\<close>

text \<open>
  A Python \<^verbatim>\<open>str\<close> is a sequence of Unicode code points. HOL's \<^typ>\<open>char\<close> has only
  256 values, so a string is modelled as the list of its code points; \<open>lit\<close> turns a
  literal of the script into that list.
\<close>

type_synonym str = "nat list"

abbreviation (input) lit :: "string \<Rightarrow> str" where
  "lit s \<equiv> map of_char s"

text \<open>
  \<^verbatim>\<open>str.isspace\<close> for one code point, the test \<^verbatim>\<open>str.strip()\<close> applies when it is called
  with no argument: the characters of bidirectional type WS, B or S and of category Zs,
  that is U+0009..U+000D, U+001C..U+0020, U+0085, U+00A0, U+1680, U+2000..U+200A,
  U+2028, U+2029, U+202F, U+205F and U+3000.
\<close>

definition isspace :: "nat \<Rightarrow> bool" where
  "isspace c =
     (c \<in> set [9, 10, 11, 12, 13, 28, 29, 30, 31, 32, 133, 160, 5760,
                8232, 8233, 8239, 8287, 12288]
      \<or> (8192 \<le> c \<and> c \<le> 8202))"

text \<open>\<^verbatim>\<open>s.strip()\<close>: the slice between the first and the last character that is not whitespace.\<close>

definition strip :: "str \<Rightarrow> str" where
  "strip s = rev (dropWhile isspace (rev (dropWhile isspace s)))"

text \<open>
  \<^verbatim>\<open>s.split(sep)\<close> for a separator of one character: every occurrence of the separator
  ends a piece, so a string with \<open>n\<close> separators gives \<open>n + 1\<close> pieces and the empty
  string gives one empty piece. \<open>cur\<close> is the piece being read.
\<close>

fun split_from :: "str \<Rightarrow> nat \<Rightarrow> str \<Rightarrow> str list" where
  "split_from [] sep cur = [cur]"
| "split_from (c # cs) sep cur =
     (if c = sep then cur # split_from cs sep [] else split_from cs sep (cur @ [c]))"

definition split :: "str \<Rightarrow> nat \<Rightarrow> str list" where
  "split s sep = split_from s sep []"

text \<open>\<^verbatim>\<open>s.rfind(c)\<close>: the highest index of \<open>c\<close> in \<open>s\<close>, or \<open>-1\<close> when there is none.\<close>

fun rfind :: "str \<Rightarrow> nat \<Rightarrow> int" where
  "rfind [] c = - 1"
| "rfind (x # xs) c =
     (if 0 \<le> rfind xs c then rfind xs c + 1 else if x = c then 0 else - 1)"

text \<open>\<^verbatim>\<open>str(n)\<close> for an integer: its decimal digits, after a minus sign when it is negative.\<close>

function str_nat :: "nat \<Rightarrow> str" where
  "str_nat n = (if n < 10 then [48 + n] else str_nat (n div 10) @ [48 + n mod 10])"
  by pat_completeness auto
termination
  by (relation "measure (\<lambda>n. n)") auto

declare str_nat.simps [simp del]

definition str_int :: "int \<Rightarrow> str" where
  "str_int i = (if i < 0 then 45 # str_nat (nat (- i)) else str_nat (nat i))"

text \<open>
  A \<^verbatim>\<open>dict\<close> with string keys keeps its keys in insertion order: an association list
  with no key twice. Assigning to a key replaces its value in place, or appends the key.
\<close>

datatype json = JStr str | JList "json list" | JDict "(str \<times> json) list"

definition dict_keys :: "(str \<times> 'v) list \<Rightarrow> str list" where
  "dict_keys d = map fst d"

definition dict_get :: "(str \<times> 'v) list \<Rightarrow> str \<Rightarrow> 'v option" where
  "dict_get d k = map_of d k"

fun dict_set :: "(str \<times> 'v) list \<Rightarrow> str \<Rightarrow> 'v \<Rightarrow> (str \<times> 'v) list" where
  "dict_set [] k v = [(k, v)]"
| "dict_set ((k', v') # d) k v =
     (if k' = k then (k, v) # d else (k', v') # dict_set d k v)"

text \<open>Looking a key up in a JSON value: \<open>None\<close> when the value is no object or has no such key.\<close>

fun json_get :: "json \<Rightarrow> str \<Rightarrow> json option" where
  "json_get (JDict d) k = dict_get d k"
| "json_get _ k = None"

fun json_keys :: "json \<Rightarrow> str list" where
  "json_keys (JDict d) = dict_keys d"
| "json_keys _ = []"

section \<open>\<^verbatim>\<open>os.path\<close> on a POSIX system\<close>

text \<open>
  \<^verbatim>\<open>posixpath.basename(p)\<close> is \<^verbatim>\<open>p[p.rfind('/') + 1:]\<close>.
\<close>

definition sep :: nat where
  "sep = 47"

definition extsep :: nat where
  "extsep = 46"

definition basename :: "str \<Rightarrow> str" where
  "basename p = drop (nat (rfind p sep + 1)) p"

text \<open>
  \<^verbatim>\<open>posixpath.splitext(p)\<close>, the loop of \<^verbatim>\<open>genericpath._splitext\<close>:
  \<^verbatim>\<open>
    sepIndex = p.rfind(sep)
    dotIndex = p.rfind(extsep)
    if dotIndex > sepIndex:
        filenameIndex = sepIndex + 1
        while filenameIndex < dotIndex:
            if p[filenameIndex:filenameIndex+1] != extsep:
                return p[:dotIndex], p[dotIndex:]
            filenameIndex += 1
    return p, p[:0]
  \<close>
  \<open>splitext_loop\<close> is the \<^verbatim>\<open>while\<close> loop: it is true when the loop returns from its body,
  at a character of the file name before the last dot that is not a dot.
\<close>

function splitext_loop :: "str \<Rightarrow> int \<Rightarrow> int \<Rightarrow> bool" where
  "splitext_loop p filenameIndex dotIndex =
     (if filenameIndex < dotIndex
      then (if take 1 (drop (nat filenameIndex) p) \<noteq> [extsep] then True
            else splitext_loop p (filenameIndex + 1) dotIndex)
      else False)"
  by pat_completeness auto
termination
  by (relation "measure (\<lambda>(p, filenameIndex, dotIndex). nat (dotIndex - filenameIndex))") auto

declare splitext_loop.simps [simp del]

definition splitext :: "str \<Rightarrow> str \<times> str" where
  "splitext p =
     (let sepIndex = rfind p sep; dotIndex = rfind p extsep
      in if dotIndex > sepIndex \<and> splitext_loop p (sepIndex + 1) dotIndex
         then (take (nat dotIndex) p, drop (nat dotIndex) p)
         else (p, []))"

section \<open>The command line\<close>

text \<open>
  What \<^verbatim>\<open>argparse\<close> reads from the command line, after its own tokenisation: the value
  given for the positional argument and for each option, \<open>None\<close> where the command line
  has none. \<open>namespace\<close> is the object \<^verbatim>\<open>parse_args\<close> returns.
\<close>

record cmdline =
  argv_video :: "str option"
  argv_title :: "str option"
  argv_description :: "str option"
  argv_tags :: "str option"
  argv_privacy :: "str option"

record namespace =
  args_video :: str
  args_title :: "str option"
  args_description :: str
  args_tags :: str
  args_privacy :: str

text \<open>
  Exceptions of the client libraries (\<open>HttpError\<close> carries its \<^verbatim>\<open>str()\<close> text), and the
  ways a call of the script ends without returning: \<^verbatim>\<open>sys.exit(message)\<close> prints the
  message on standard error and ends the process with status 1, \<^verbatim>\<open>sys.exit(n)\<close> ends
  it with status \<open>n\<close>, an exception nobody catches ends it with a traceback and status 1.
\<close>

datatype exn = HttpError str | OtherError str

datatype abort = SystemExit_str str | SystemExit_int int | Uncaught exn

fun exit_status :: "abort + 'a \<Rightarrow> int" where
  "exit_status (Inr _) = 0"
| "exit_status (Inl (SystemExit_str _)) = 1"
| "exit_status (Inl (SystemExit_int n)) = n"
| "exit_status (Inl (Uncaught _)) = 1"

definition privacy_choices :: "str list" where
  "privacy_choices = [lit ''public'', lit ''unlisted'', lit ''private'']"

text \<open>
  \<^verbatim>\<open>parser.parse_args()\<close> for the five arguments \<^verbatim>\<open>main\<close> declares: a value of
  \<^verbatim>\<open>--privacy\<close> outside its \<^verbatim>\<open>choices\<close> and a missing positional argument are usage
  errors (\<^verbatim>\<open>parser.error\<close>, exit status 2); an option left out takes its \<^verbatim>\<open>default\<close>,
  which is \<^verbatim>\<open>None\<close> for \<^verbatim>\<open>--title\<close>.
\<close>

definition parse_args :: "cmdline \<Rightarrow> abort + namespace" where
  "parse_args argv =
     (if (case argv_privacy argv of None \<Rightarrow> False | Some p \<Rightarrow> p \<notin> set privacy_choices)
      then Inl (SystemExit_int 2)
      else (case argv_video argv of
              None \<Rightarrow> Inl (SystemExit_int 2)
            | Some v \<Rightarrow>
                Inr \<lparr>args_video = v,
                     args_title = argv_title argv,
                     args_description = (case argv_description argv of None \<Rightarrow> [] | Some d \<Rightarrow> d),
                     args_tags = (case argv_tags argv of None \<Rightarrow> [] | Some t \<Rightarrow> t),
                     args_privacy = (case argv_privacy argv of
                                       None \<Rightarrow> lit ''private'' | Some p \<Rightarrow> p)\<rparr>))"

section \<open>The world the script runs in\<close>

text \<open>
  The fields of \<^verbatim>\<open>google.oauth2.credentials.Credentials\<close> the script reads. \<open>expired\<close> is
  the library's comparison of the expiry time with the clock; the script reads it right
  after \<^verbatim>\<open>valid\<close>, and the model takes one reading for both. \<open>to_json\<close> is the text
  \<^verbatim>\<open>creds.to_json()\<close> serialises the credential to (the examples below
  abbreviate it). The library defines \<^verbatim>\<open>valid\<close> as \<^verbatim>\<open>self.token is not None and not self.expired\<close>.
\<close>

record credentials =
  token :: "str option"
  expired :: bool
  refresh_token :: "str option"
  to_json :: str

definition valid :: "credentials \<Rightarrow> bool" where
  "valid creds = (token creds \<noteq> None \<and> \<not> expired creds)"

text \<open>The keyword arguments of the call \<^verbatim>\<open>MediaFileUpload(file_path, chunksize=..., resumable=...)\<close>;
  \<open>chunksize = None\<close> stands for a call that leaves the chunk size to the library's default.\<close>

record media_file_upload =
  filename :: str
  chunksize :: "int option"
  resumable :: bool

text \<open>The client \<^verbatim>\<open>build\<close> returns holds the credentials it was built with.\<close>

datatype youtube = Youtube credentials

text \<open>
  One call of \<^verbatim>\<open>request.next_chunk()\<close> either returns the pair \<^verbatim>\<open>(status, response)\<close> or
  raises. A status is kept as the integer \<^verbatim>\<open>int(status.progress() * 100)\<close> the script
  prints from it; a response is the decoded resource, each key with the \<^verbatim>\<open>str()\<close> text
  of its value.
\<close>

datatype chunk = Chunk "int option" "(str \<times> str) list option" | Raises exn

text \<open>
  Everything outside the script that decides a run: which paths exist, and what each
  library call returns or raises. \<open>next_chunk\<close> lists the outcomes of the successive
  calls of \<^verbatim>\<open>request.next_chunk()\<close>.
\<close>

record world =
  path_exists :: "str \<Rightarrow> bool"
  from_authorized_user_file :: "exn + credentials"
  refresh :: "credentials \<Rightarrow> exn + credentials"
  from_client_secrets_file :: "exn option"
  run_local_server :: "exn + credentials"
  next_chunk :: "chunk list"

text \<open>What a run does that can be seen from outside, in the order it happens.\<close>

datatype event =
    Print str
  | Load_token_file
  | Refresh credentials
  | Consent_flow
  | Write_token_file str
  | Build_client credentials
  | Videos_insert str json media_file_upload
  | Next_chunk

text \<open>The contents of \<^verbatim>\<open>token.json\<close> after a run, from its contents before: the file is
  opened with mode \<^verbatim>\<open>"w"\<close>, so each write replaces what was there.\<close>

fun token_file_after :: "str option \<Rightarrow> event list \<Rightarrow> str option" where
  "token_file_after f [] = f"
| "token_file_after f (Write_token_file s # es) = token_file_after (Some s) es"
| "token_file_after f (_ # es) = token_file_after f es"

section \<open>\<^verbatim>\<open>get_youtube_client\<close>\<close>

definition CLIENT_SECRETS_FILE :: str where
  "CLIENT_SECRETS_FILE = lit ''client_secret.json''"

definition token_json :: str where
  "token_json = lit ''token.json''"

text \<open>Lines 35 to 37: \<^verbatim>\<open>creds\<close> stays \<^verbatim>\<open>None\<close> unless the token file exists.\<close>

definition load_creds :: "world \<Rightarrow> (abort + credentials option) \<times> event list" where
  "load_creds w =
     (if path_exists w token_json
      then (case from_authorized_user_file w of
              Inl e \<Rightarrow> (Inl (Uncaught e), [Load_token_file])
            | Inr creds \<Rightarrow> (Inr (Some creds), [Load_token_file]))
      else (Inr None, []))"

text \<open>Line 38, \<^verbatim>\<open>not creds or not creds.valid\<close>, and line 39,
  \<^verbatim>\<open>creds and creds.expired and creds.refresh_token\<close> (an empty refresh token is falsy).\<close>

fun needs_login :: "credentials option \<Rightarrow> bool" where
  "needs_login None = True"
| "needs_login (Some creds) = (\<not> valid creds)"

fun refreshable :: "credentials option \<Rightarrow> bool" where
  "refreshable None = False"
| "refreshable (Some creds) =
     (expired creds \<and> refresh_token creds \<noteq> None \<and> refresh_token creds \<noteq> Some [])"

text \<open>Lines 39 to 48: the refresh, or else the consent flow in the browser.\<close>

definition renew :: "world \<Rightarrow> credentials option \<Rightarrow> (abort + credentials) \<times> event list" where
  "renew w creds =
     (if refreshable creds
      then (case refresh w (the creds) of
              Inl e \<Rightarrow> (Inl (Uncaught e), [Refresh (the creds)])
            | Inr creds' \<Rightarrow> (Inr creds', [Refresh (the creds)]))
      else if \<not> path_exists w CLIENT_SECRETS_FILE
      then (Inl (SystemExit_str (lit ''Missing '' @ CLIENT_SECRETS_FILE @
              lit ''. Put your OAuth client secrets JSON next to this script.'')), [])
      else (case from_client_secrets_file w of
              Some e \<Rightarrow> (Inl (Uncaught e), [])
            | None \<Rightarrow>
                (case run_local_server w of
                   Inl e \<Rightarrow> (Inl (Uncaught e), [Consent_flow])
                 | Inr creds' \<Rightarrow> (Inr creds', [Consent_flow]))))"

definition get_youtube_client :: "world \<Rightarrow> (abort + youtube) \<times> event list" where
  "get_youtube_client w =
     (case load_creds w of
        (Inl a, tr) \<Rightarrow> (Inl a, tr)
      | (Inr creds, tr) \<Rightarrow>
          if needs_login creds
          then (case renew w creds of
                  (Inl a, tr') \<Rightarrow> (Inl a, tr @ tr')
                | (Inr creds', tr') \<Rightarrow>
                    (Inr (Youtube creds'),
                     tr @ tr' @ [Write_token_file (to_json creds'), Build_client creds']))
          else (Inr (Youtube (the creds)), tr @ [Build_client (the creds)]))"

section \<open>\<^verbatim>\<open>upload_video\<close>\<close>

text \<open>Lines 62 to 70: the request body; \<^verbatim>\<open>if tags:\<close> holds for a list that is not empty.\<close>

definition upload_body :: "str \<Rightarrow> str \<Rightarrow> str list option \<Rightarrow> str \<Rightarrow> json" where
  "upload_body title' description' tags' privacy_status =
     (let snippet = [(lit ''title'', JStr title'), (lit ''description'', JStr description')];
          status = [(lit ''privacyStatus'', JStr privacy_status)]
      in JDict [(lit ''snippet'',
                 JDict (case tags' of
                          None \<Rightarrow> snippet
                        | Some ts \<Rightarrow>
                            if ts \<noteq> [] then dict_set snippet (lit ''tags'') (JList (map JStr ts))
                            else snippet)),
                (lit ''status'', JDict status)])"

text \<open>
  Lines 78 to 81, the loop \<^verbatim>\<open>while response is None\<close>: it ends with the first response
  that is not \<^verbatim>\<open>None\<close> (\<open>Inr\<close>) or with the exception \<^verbatim>\<open>next_chunk\<close> raises (\<open>Inl\<close>).
  When the listed outcomes run out before either, the loop has not ended: \<open>None\<close>, with
  the events so far.
\<close>

fun upload_loop :: "chunk list \<Rightarrow> (exn + (str \<times> str) list) option \<times> event list" where
  "upload_loop [] = (None, [])"
| "upload_loop (Raises e # rest) = (Some (Inl e), [Next_chunk])"
| "upload_loop (Chunk status response # rest) =
     (let tr = Next_chunk #
               (case status of
                  None \<Rightarrow> []
                | Some percent \<Rightarrow> [Print (lit ''Uploaded '' @ str_int percent @ lit ''%'')])
      in case response of
           Some r \<Rightarrow> (Some (Inr r), tr)
         | None \<Rightarrow> (case upload_loop rest of (x, tr') \<Rightarrow> (x, tr @ tr')))"

text \<open>Lines 85 to 93: \<^verbatim>\<open>response\<close> is \<^verbatim>\<open>None\<close> when the loop was left by an exception.\<close>

definition report :: "(str \<times> str) list option \<Rightarrow> (abort + str) \<times> event list" where
  "report response =
     (case response of
        None \<Rightarrow> (Inl (SystemExit_int 1), [Print (lit ''The upload failed.'')])
      | Some r \<Rightarrow>
          (case (if r = [] then None else dict_get r (lit ''id'')) of
             Some video_id \<Rightarrow>
               (Inr video_id,
                [Print (lit ''Upload complete '' @ [9989]),
                 Print (lit ''Video ID: '' @ video_id),
                 Print (lit ''Watch URL: https://youtu.be/'' @ video_id)])
           | None \<Rightarrow> (Inl (SystemExit_int 1), [Print (lit ''The upload failed.'')])))"

definition upload_video ::
  "world \<Rightarrow> youtube \<Rightarrow> str \<Rightarrow> str \<Rightarrow> str \<Rightarrow> str list option \<Rightarrow> str \<Rightarrow>
     (abort + str) option \<times> event list" where
  "upload_video w yt file_path title' description' tags' privacy_status =
     (let body = upload_body title' description' tags' privacy_status;
          media = \<lparr>filename = file_path, chunksize = Some (- 1), resumable = True\<rparr>;
          tr = [Videos_insert (lit ''snippet,status'') body media,
                Print (lit ''Starting upload...'')]
      in case upload_loop (next_chunk w) of
           (None, tr') \<Rightarrow> (None, tr @ tr')
         | (Some (Inr r), tr') \<Rightarrow>
             (case report (Some r) of (res, tr'') \<Rightarrow> (Some res, tr @ tr' @ tr''))
         | (Some (Inl (HttpError e)), tr') \<Rightarrow>
             (case report None of
                (res, tr'') \<Rightarrow> (Some res, tr @ tr' @ Print (lit ''HTTP Error: '' @ e) # tr''))
         | (Some (Inl e), tr') \<Rightarrow> (Some (Inl (Uncaught e)), tr @ tr'))"

section \<open>\<^verbatim>\<open>main\<close>\<close>

text \<open>Line 117, \<^verbatim>\<open>args.title or os.path.splitext(os.path.basename(args.video))[0]\<close>:
  \<^verbatim>\<open>None\<close> and the empty string are both falsy.\<close>

definition main_title :: "namespace \<Rightarrow> str" where
  "main_title args =
     (case args_title args of
        None \<Rightarrow> fst (splitext (basename (args_video args)))
      | Some t \<Rightarrow> if t \<noteq> [] then t else fst (splitext (basename (args_video args))))"

text \<open>Line 118,
  \<^verbatim>\<open>[t.strip() for t in args.tags.split(",") if t.strip()] if args.tags else []\<close>.\<close>

definition comma :: nat where
  "comma = 44"

definition main_tags :: "namespace \<Rightarrow> str list" where
  "main_tags args =
     (if args_tags args \<noteq> []
      then map strip (filter (\<lambda>t. strip t \<noteq> []) (split (args_tags args) comma))
      else [])"

text \<open>A run of the script: how it ends, and its events. \<open>None\<close> is a run whose upload
  loop has not ended within the listed outcomes of \<^verbatim>\<open>next_chunk\<close>.\<close>

definition main :: "world \<Rightarrow> cmdline \<Rightarrow> (abort + unit) option \<times> event list" where
  "main w argv =
     (case parse_args argv of
        Inl a \<Rightarrow> (Some (Inl a), [])
      | Inr args \<Rightarrow>
          if \<not> path_exists w (args_video args)
          then (Some (Inl (SystemExit_str (lit ''File not found: '' @ args_video args))), [])
          else
            (let title' = main_title args; tags' = main_tags args
             in case get_youtube_client w of
                  (Inl a, tr) \<Rightarrow> (Some (Inl a), tr)
                | (Inr yt, tr) \<Rightarrow>
                    (case upload_video w yt (args_video args) title' (args_description args)
                            (if tags' \<noteq> [] then Some tags' else None) (args_privacy args) of
                       (None, tr') \<Rightarrow> (None, tr @ tr')
                     | (Some (Inl a), tr') \<Rightarrow> (Some (Inl a), tr @ tr')
                     | (Some (Inr video_id), tr') \<Rightarrow> (Some (Inr ()), tr @ tr'))))"

section \<open>Reading a run\<close>

text \<open>The calls of \<^verbatim>\<open>youtube.videos().insert\<close> among the events of a run, each with its
  \<^verbatim>\<open>part\<close>, \<^verbatim>\<open>body\<close> and \<^verbatim>\<open>media_body\<close>.\<close>

fun requests :: "event list \<Rightarrow> (str \<times> json \<times> media_file_upload) list" where
  "requests [] = []"
| "requests (Videos_insert part body media # es) = (part, body, media) # requests es"
| "requests (_ # es) = requests es"

definition request_bodies :: "event list \<Rightarrow> json list" where
  "request_bodies es = map (\<lambda>(part, body, media). body) (requests es)"

definition request_media :: "event list \<Rightarrow> media_file_upload list" where
  "request_media es = map (\<lambda>(part, body, media). media) (requests es)"

text \<open>The value under a path of keys, as in \<^verbatim>\<open>body["snippet"]["title"]\<close>.\<close>

fun lookup_path :: "json \<Rightarrow> str list \<Rightarrow> json option" where
  "lookup_path j [] = Some j"
| "lookup_path j (k # ks) = (case json_get j k of None \<Rightarrow> None | Some j' \<Rightarrow> lookup_path j' ks)"

definition request_titles :: "event list \<Rightarrow> json option list" where
  "request_titles es = map (\<lambda>body. lookup_path body [lit ''snippet'', lit ''title'']) (request_bodies es)"

definition request_tags :: "event list \<Rightarrow> json option list" where
  "request_tags es = map (\<lambda>body. lookup_path body [lit ''snippet'', lit ''tags'']) (request_bodies es)"

text \<open>The events that read, renew or write the credential: loading the token file, the
  refresh call, the consent flow in the browser, and writing the token file.\<close>

fun credential_event :: "event \<Rightarrow> bool" where
  "credential_event Load_token_file = True"
| "credential_event (Refresh creds) = True"
| "credential_event Consent_flow = True"
| "credential_event (Write_token_file s) = True"
| "credential_event _ = False"

definition credential_events :: "event list \<Rightarrow> event list" where
  "credential_events es = filter credential_event es"

text \<open>The exit status of a run that has ended.\<close>

definition run_status :: "(abort + 'a) option \<times> event list \<Rightarrow> int option" where
  "run_status r = map_option exit_status (fst r)"

text \<open>The lines the run prints on standard output.\<close>

fun printed :: "event list \<Rightarrow> str list" where
  "printed [] = []"
| "printed (Print s # es) = s # printed es"
| "printed (_ # es) = printed es"

section \<open>Example runs\<close>

text \<open>A directory that holds \<^verbatim>\<open>demo.mp4\<close> and a token file with a valid credential, and
  an upload that reports half of the file and then returns the new resource.\<close>

definition demo_creds :: credentials where
  "demo_creds = \<lparr>token = Some (lit ''ya29.a0''), expired = False,
                 refresh_token = Some (lit ''1//0g''), to_json = lit ''ya29.a0 1//0g''\<rparr>"

definition demo_world :: world where
  "demo_world =
     \<lparr>path_exists = (\<lambda>p. p \<in> set [lit ''demo.mp4'', lit ''token.json'', lit ''client_secret.json'']),
      from_authorized_user_file = Inr demo_creds,
      refresh = (\<lambda>creds. Inr (creds\<lparr>token := Some (lit ''ya29.b1''), expired := False,
                                      to_json := lit ''ya29.b1 1//0g''\<rparr>)),
      from_client_secrets_file = None,
      run_local_server = Inr demo_creds,
      next_chunk = [Chunk (Some 50) None, Chunk None (Some [(lit ''id'', lit ''dQw4w9WgXcQ'')])]\<rparr>"

definition demo_argv :: cmdline where
  "demo_argv = \<lparr>argv_video = Some (lit ''demo.mp4''), argv_title = None,
                argv_description = None, argv_tags = None, argv_privacy = None\<rparr>"

section \<open>Facts about \<^verbatim>\<open>rfind\<close>, \<^verbatim>\<open>basename\<close> and \<^verbatim>\<open>splitext\<close>\<close>

lemma rfind_append_last: "c \<notin> set zs \<Longrightarrow> rfind (ys @ c # zs) c = int (length ys)"
proof (induction ys)
  case Nil
  have "c \<notin> set zs \<Longrightarrow> rfind zs c = - 1" by (induction zs) auto
  with Nil show ?case by simp
next
  case (Cons y ys) then show ?case by simp
qed

lemma rfind_notin: "c \<notin> set xs \<Longrightarrow> rfind xs c = - 1"
  by (induction xs) auto

lemma rfind_cases:
  "(c \<notin> set xs \<and> rfind xs c = - 1) \<or>
   (\<exists>ys zs. xs = ys @ c # zs \<and> c \<notin> set zs \<and> rfind xs c = int (length ys))"
proof (cases "c \<in> set xs")
  case True
  then obtain ys zs where "xs = ys @ c # zs" "c \<notin> set zs" by (meson split_list_last)
  then show ?thesis using rfind_append_last by blast
next
  case False then show ?thesis by (simp add: rfind_notin)
qed

lemma basename_after_sep: "sep \<notin> set b \<Longrightarrow> basename (d @ sep # b) = b"
proof -
  assume "sep \<notin> set b"
  then have "rfind (d @ sep # b) sep = int (length d)" by (rule rfind_append_last)
  moreover have "nat (int (length d) + 1) = Suc (length d)" by simp
  ultimately show ?thesis by (simp add: basename_def)
qed

lemma basename_no_sep: "sep \<notin> set b \<Longrightarrow> basename b = b"
  by (simp add: basename_def rfind_notin)

lemma basename_cases:
  "(sep \<notin> set p \<and> basename p = p) \<or> (\<exists>d. p = d @ sep # basename p)"
  using rfind_cases [of sep p] by (auto simp: basename_no_sep basename_after_sep)

lemma sep_notin_basename: "sep \<notin> set (basename p)"
  using rfind_cases [of sep p] by (auto simp: basename_no_sep basename_after_sep)

lemma splitext_loop_iff:
  "splitext_loop p i d \<longleftrightarrow> (\<exists>k. i \<le> k \<and> k < d \<and> take 1 (drop (nat k) p) \<noteq> [extsep])"
proof (induction p i d rule: splitext_loop.induct)
  case (1 p i d)
  show ?case
  proof (cases "i < d")
    case False then show ?thesis by (subst splitext_loop.simps) auto
  next
    case True
    show ?thesis
    proof (cases "take 1 (drop (nat i) p) \<noteq> [extsep]")
      case True
      with \<open>i < d\<close> show ?thesis by (subst splitext_loop.simps) auto
    next
      case False
      with \<open>i < d\<close> have "splitext_loop p i d = splitext_loop p (i + 1) d"
        by (subst splitext_loop.simps) simp
      also have "\<dots> = (\<exists>k. i + 1 \<le> k \<and> k < d \<and> take 1 (drop (nat k) p) \<noteq> [extsep])"
        using 1 \<open>i < d\<close> False by simp
      also have "\<dots> = (\<exists>k. i \<le> k \<and> k < d \<and> take 1 (drop (nat k) p) \<noteq> [extsep])"
      proof -
        have "\<And>k. i \<le> k \<Longrightarrow> take 1 (drop (nat k) p) \<noteq> [extsep] \<Longrightarrow> i + 1 \<le> k"
          using False by (metis add.commute less_le zless_imp_add1_zle)
        then show ?thesis by (metis add.commute add_le_imp_le_right le_add_same_cancel2 zero_less_one_class.zero_le_one dual_order.trans)
      qed
      finally show ?thesis .
    qed
  qed
qed

lemma rfind_ge: "- 1 \<le> rfind xs c"
  by (induction xs) auto

lemma splitext_no_dot: "extsep \<notin> set p \<Longrightarrow> splitext p = (p, [])"
  using rfind_ge [of p sep] by (simp add: splitext_def rfind_notin Let_def)

lemma splitext_last_dot:
  assumes "sep \<notin> set ys" "sep \<notin> set zs" "extsep \<notin> set zs"
  shows "splitext (ys @ extsep # zs) =
           (if set ys \<subseteq> {extsep} then (ys @ extsep # zs, []) else (ys, extsep # zs))"
proof -
  let ?p = "ys @ extsep # zs"
  have ne: "sep \<noteq> extsep" by (simp add: sep_def extsep_def)
  have s: "rfind ?p sep = - 1" using assms ne by (simp add: rfind_notin)
  have d: "rfind ?p extsep = int (length ys)" using assms by (simp add: rfind_append_last)
  have "splitext_loop ?p 0 (int (length ys)) \<longleftrightarrow> (\<exists>x\<in>set ys. x \<noteq> extsep)"
  proof -
    have "(\<exists>k. 0 \<le> k \<and> k < int (length ys) \<and> take 1 (drop (nat k) ?p) \<noteq> [extsep])
            \<longleftrightarrow> (\<exists>n < length ys. ys ! n \<noteq> extsep)" (is "?L \<longleftrightarrow> ?R")
    proof
      assume ?L
      then obtain k where k: "0 \<le> k" "k < int (length ys)" "take 1 (drop (nat k) ?p) \<noteq> [extsep]"
        by blast
      then have "nat k < length ys" by simp
      then have "take 1 (drop (nat k) ?p) = [ys ! nat k]"
        by (simp add: take_Suc_conv_app_nth)
      with k \<open>nat k < length ys\<close> show ?R by auto
    next
      assume ?R
      then obtain n where n: "n < length ys" "ys ! n \<noteq> extsep" by blast
      then have "take 1 (drop n ?p) = [ys ! n]" by (simp add: take_Suc_conv_app_nth)
      with n have "0 \<le> int n \<and> int n < int (length ys) \<and> take 1 (drop (nat (int n)) ?p) \<noteq> [extsep]"
        by simp
      then show ?L by blast
    qed
    also have "\<dots> \<longleftrightarrow> (\<exists>x\<in>set ys. x \<noteq> extsep)" by (metis in_set_conv_nth)
    finally show ?thesis by (simp add: splitext_loop_iff)
  qed
  then show ?thesis using s d by (auto simp: splitext_def Let_def)
qed

section \<open>Facts about the events of a run\<close>

lemma requests_append: "requests (xs @ ys) = requests xs @ requests ys"
  by (induction xs rule: requests.induct) auto

lemma printed_append: "printed (xs @ ys) = printed xs @ printed ys"
  by (induction xs rule: printed.induct) auto

lemma requests_get_youtube_client: "requests (snd (get_youtube_client w)) = []"
  by (auto simp: get_youtube_client_def load_creds_def renew_def requests_append
           split: sum.splits option.splits prod.splits if_splits)

lemma printed_get_youtube_client: "printed (snd (get_youtube_client w)) = []"
  by (auto simp: get_youtube_client_def load_creds_def renew_def printed_append
           split: sum.splits option.splits prod.splits if_splits)

lemma requests_upload_loop: "requests (snd (upload_loop cs)) = []"
  by (induction cs rule: upload_loop.induct)
     (auto simp: requests_append Let_def split: option.splits prod.splits)

lemma requests_report: "requests (snd (report r)) = []"
  by (auto simp: report_def split: option.splits)

lemma requests_upload_video:
  "requests (snd (upload_video w yt file_path t d tg p)) =
     [(lit ''snippet,status'', upload_body t d tg p,
       \<lparr>filename = file_path, chunksize = Some (- 1), resumable = True\<rparr>)]"
proof -
  obtain x tr where l: "upload_loop (next_chunk w) = (x, tr)" by (cases "upload_loop (next_chunk w)")
  have tr: "requests tr = []" using requests_upload_loop [of "next_chunk w"] l by simp
  have r: "\<And>y res tr'. report y = (res, tr') \<Longrightarrow> requests tr' = []"
    using requests_report by (metis snd_conv)
  show ?thesis
    using l tr
    by (auto simp: upload_video_def Let_def requests_append dest: r
             split: option.splits sum.splits exn.splits prod.splits)
qed

lemma requests_main:
  "requests (snd (main w argv)) =
     (case parse_args argv of
        Inl a \<Rightarrow> []
      | Inr args \<Rightarrow>
          if path_exists w (args_video args)
          then (case fst (get_youtube_client w) of
                  Inl a \<Rightarrow> []
                | Inr yt \<Rightarrow>
                    [(lit ''snippet,status'',
                      upload_body (main_title args) (args_description args)
                        (if main_tags args \<noteq> [] then Some (main_tags args) else None)
                        (args_privacy args),
                      \<lparr>filename = args_video args, chunksize = Some (- 1), resumable = True\<rparr>)])
          else [])"
proof (cases "parse_args argv")
  case (Inl a)
  then show ?thesis by (simp add: main_def)
next
  case (Inr args)
  show ?thesis
  proof (cases "path_exists w (args_video args)")
    case False
    with Inr show ?thesis by (simp add: main_def)
  next
    case True
    obtain c tr where g: "get_youtube_client w = (c, tr)" by (cases "get_youtube_client w")
    have tr: "requests tr = []" using requests_get_youtube_client [of w] g by simp
    show ?thesis
    proof (cases c)
      case (Inl a)
      with Inr True g tr show ?thesis by (simp add: main_def Let_def)
    next
      case (Inr yt)
      let ?u = "upload_video w yt (args_video args) (main_title args) (args_description args)
                  (if main_tags args \<noteq> [] then Some (main_tags args) else None) (args_privacy args)"
      obtain x tr' where u: "?u = (x, tr')" by (cases ?u)
      have "requests tr' = requests (snd ?u)" using u by simp
      then have tr': "requests tr' = [(lit ''snippet,status'',
                      upload_body (main_title args) (args_description args)
                        (if main_tags args \<noteq> [] then Some (main_tags args) else None)
                        (args_privacy args),
                      \<lparr>filename = args_video args, chunksize = Some (- 1), resumable = True\<rparr>)]"
        by (simp only: requests_upload_video)
      have "snd (main w argv) = tr @ tr'"
        using \<open>parse_args argv = Inr args\<close> True g Inr u
        by (auto simp: main_def Let_def split: option.splits sum.splits)
      then show ?thesis
        using \<open>parse_args argv = Inr args\<close> True g Inr tr tr'
        by (simp add: requests_append)
    qed
  qed
qed

section \<open>The title\<close>

lemma splitext_basename_cases:
  "(extsep \<notin> set (basename p) \<and> splitext (basename p) = (basename p, []))
   \<or> (\<exists>ys zs. basename p = ys @ extsep # zs \<and> extsep \<notin> set zs \<and> set ys \<subseteq> {extsep}
         \<and> splitext (basename p) = (basename p, []))
   \<or> (\<exists>ys zs. basename p = ys @ extsep # zs \<and> extsep \<notin> set zs \<and> \<not> set ys \<subseteq> {extsep}
         \<and> splitext (basename p) = (ys, extsep # zs))"
proof (cases "extsep \<in> set (basename p)")
  case False
  then show ?thesis by (simp add: splitext_no_dot)
next
  case True
  then obtain ys zs where b: "basename p = ys @ extsep # zs" "extsep \<notin> set zs"
    by (meson split_list_last)
  have "sep \<notin> set (ys @ extsep # zs)" using sep_notin_basename [of p] b by simp
  then have "sep \<notin> set ys" "sep \<notin> set zs" by auto
  then have "splitext (ys @ extsep # zs) =
           (if set ys \<subseteq> {extsep} then (ys @ extsep # zs, []) else (ys, extsep # zs))"
    using b(2) by (rule splitext_last_dot)
  with b show ?thesis by (cases "set ys \<subseteq> {extsep}") auto
qed

text \<open>
  C9. When no title is given, the title is the base name of the video path with only its
  last extension taken off: a base name \<open>r.e\<close>, where \<open>e\<close> has no dot and \<open>r\<close> has a
  character that is not a dot, gives \<open>r\<close>, whatever dots \<open>r\<close> holds; a base name
  that is some dots followed by a part with no dot (no extension at all, or a leading-dot
  name) is the title as it stands; and the title of a non-empty base name is never empty.
\<close>

theorem default_title_strips_last_extension:
  assumes "args_title args = None"
  shows "(\<forall>r e. basename (args_video args) = r @ extsep # e \<and> extsep \<notin> set e
              \<and> \<not> set r \<subseteq> {extsep} \<longrightarrow> main_title args = r)
       \<and> (\<forall>n e. basename (args_video args) = replicate n extsep @ e \<and> extsep \<notin> set e
              \<longrightarrow> main_title args = basename (args_video args))
       \<and> (basename (args_video args) \<noteq> [] \<longrightarrow> main_title args \<noteq> [])"
proof -
  let ?b = "basename (args_video args)"
  have t: "main_title args = fst (splitext ?b)" using assms by (simp add: main_title_def)
  have s: "sep \<notin> set ?b" by (rule sep_notin_basename)
  have 1: "main_title args = r" if "?b = r @ extsep # e" "extsep \<notin> set e" "\<not> set r \<subseteq> {extsep}" for r e
  proof -
    have "sep \<notin> set r" "sep \<notin> set e" using s that(1) by auto
    then have "splitext (r @ extsep # e) =
           (if set r \<subseteq> {extsep} then (r @ extsep # e, []) else (r, extsep # e))"
      using that(2) by (rule splitext_last_dot)
    with that t show ?thesis by simp
  qed
  have 2: "main_title args = ?b" if "?b = replicate n extsep @ e" "extsep \<notin> set e" for n e
  proof (cases n)
    case 0
    with that have "extsep \<notin> set ?b" by simp
    then show ?thesis using t by (simp add: splitext_no_dot)
  next
    case (Suc m)
    have "replicate (Suc m) extsep = replicate m extsep @ [extsep]"
      by (simp add: replicate_append_same)
    with that Suc have b: "?b = replicate m extsep @ extsep # e" by simp
    have "sep \<notin> set (replicate m extsep)" "sep \<notin> set e" using s b by auto
    then have "splitext (replicate m extsep @ extsep # e) =
           (if set (replicate m extsep) \<subseteq> {extsep} then (replicate m extsep @ extsep # e, [])
            else (replicate m extsep, extsep # e))"
      using that(2) by (rule splitext_last_dot)
    with b t show ?thesis by auto
  qed
  have 3: "main_title args \<noteq> []" if "?b \<noteq> []"
    using splitext_basename_cases [of "args_video args"] that t by auto
  from 1 2 3 show ?thesis by blast
qed

theorem default_title_strips_last_extension_witness:
  "main_title \<lparr>args_video = lit ''/srv/archive.tar.gz'', args_title = None, args_description = [],
               args_tags = [], args_privacy = lit ''private''\<rparr> = lit ''archive.tar''
   \<and> main_title \<lparr>args_video = lit ''.hidden'', args_title = None, args_description = [],
               args_tags = [], args_privacy = lit ''private''\<rparr> = lit ''.hidden''
   \<and> main_title \<lparr>args_video = lit ''clips/README'', args_title = None, args_description = [],
               args_tags = [], args_privacy = lit ''private''\<rparr> \<noteq> []"
proof -
  let ?a = "\<lparr>args_video = lit ''/srv/archive.tar.gz'', args_title = None, args_description = [],
               args_tags = [], args_privacy = lit ''private''\<rparr>"
  let ?h = "\<lparr>args_video = lit ''.hidden'', args_title = None, args_description = [],
               args_tags = [], args_privacy = lit ''private''\<rparr>"
  let ?n = "\<lparr>args_video = lit ''clips/README'', args_title = None, args_description = [],
               args_tags = [], args_privacy = lit ''private''\<rparr>"
  have ta: "args_title ?a = None" and th: "args_title ?h = None" and tn: "args_title ?n = None"
    by simp_all
  have a: "basename (args_video ?a) = lit ''archive.tar'' @ extsep # lit ''gz''
           \<and> extsep \<notin> set (lit ''gz'') \<and> \<not> set (lit ''archive.tar'') \<subseteq> {extsep}"
    by (simp add: basename_def sep_def extsep_def)
  have h: "basename (args_video ?h) = replicate 1 extsep @ lit ''hidden''
           \<and> extsep \<notin> set (lit ''hidden'')"
    by (simp add: basename_def sep_def extsep_def)
  have n: "basename (args_video ?n) \<noteq> []"
    by (simp add: basename_def sep_def)
  have "main_title ?a = lit ''archive.tar''"
    using default_title_strips_last_extension [OF ta] a by blast
  moreover have "main_title ?h = basename (args_video ?h)"
    using default_title_strips_last_extension [OF th] h by blast
  moreover have "basename (args_video ?h) = lit ''.hidden''"
    by (simp add: basename_def sep_def)
  moreover have "main_title ?n \<noteq> []"
    using default_title_strips_last_extension [OF tn] n by blast
  ultimately show ?thesis by simp
qed

lemma default_title_parts:
  "\<exists>dir ext. p = dir @ fst (splitext (basename p)) @ ext \<and> (dir = [] \<or> last dir = sep)
      \<and> sep \<notin> set (fst (splitext (basename p)) @ ext)
      \<and> (ext = [] \<or> (hd ext = extsep \<and> extsep \<notin> set (tl ext)))"
proof -
  obtain dir where d: "p = dir @ basename p" "dir = [] \<or> last dir = sep"
  proof -
    from basename_cases [of p] consider "basename p = p" | d where "p = d @ sep # basename p"
      by blast
    then show ?thesis
    proof cases
      case 1 then show ?thesis using that [of "[]"] by simp
    next
      case 2 then show ?thesis using that [of "d @ [sep]"] by simp
    qed
  qed
  obtain ext where e: "basename p = fst (splitext (basename p)) @ ext"
      "ext = [] \<or> (hd ext = extsep \<and> extsep \<notin> set (tl ext))"
    using splitext_basename_cases [of p] by fastforce
  have "sep \<notin> set (fst (splitext (basename p)) @ ext)"
    using sep_notin_basename [of p] e(1) by metis
  with d e show ?thesis by metis
qed

lemma request_titles_main:
  "request_titles (snd (main w argv)) =
     (case parse_args argv of
        Inl a \<Rightarrow> []
      | Inr args \<Rightarrow>
          if path_exists w (args_video args)
          then (case fst (get_youtube_client w) of
                  Inl a \<Rightarrow> [] | Inr yt \<Rightarrow> [Some (JStr (main_title args))])
          else [])"
  by (simp add: request_titles_def request_bodies_def requests_main upload_body_def
        dict_get_def Let_def split: sum.splits)

text \<open>
  C1, as the script has it. Every upload request carries the title \<open>main_title\<close>
  computes. When \<^verbatim>\<open>--title\<close> is left out or is the empty string, that is the first
  component of \<^verbatim>\<open>splitext(basename(video))\<close>: the path is a directory part (empty, or
  ending in a slash), the title, and an extension (empty, or one dot and a part with no
  dot), with no slash in the title or the extension. When \<^verbatim>\<open>--title\<close> is given and is
  not empty, it is the title.
\<close>

theorem title_of_request:
  assumes "parse_args argv = Inr args"
  shows "(\<forall>t \<in> set (request_titles (snd (main w argv))). t = Some (JStr (main_title args)))
       \<and> (argv_title argv = None \<or> argv_title argv = Some [] \<longrightarrow>
            main_title args = fst (splitext (basename (args_video args)))
            \<and> (\<exists>dir ext. args_video args = dir @ main_title args @ ext
                  \<and> (dir = [] \<or> last dir = sep)
                  \<and> sep \<notin> set (main_title args @ ext)
                  \<and> (ext = [] \<or> (hd ext = extsep \<and> extsep \<notin> set (tl ext)))))
       \<and> (\<forall>t. argv_title argv = Some t \<and> t \<noteq> [] \<longrightarrow> main_title args = t)"
proof -
  have a: "args_title args = argv_title argv"
    using assms by (auto simp: parse_args_def split: option.splits if_splits)
  have 1: "\<forall>t \<in> set (request_titles (snd (main w argv))). t = Some (JStr (main_title args))"
    using assms
    by (cases "path_exists w (args_video args)"; cases "fst (get_youtube_client w)")
       (simp_all add: request_titles_main)
  have 2: "main_title args = fst (splitext (basename (args_video args)))"
    if "argv_title argv = None \<or> argv_title argv = Some []"
    using that a by (auto simp: main_title_def)
  have 3: "main_title args = t" if "argv_title argv = Some t \<and> t \<noteq> []" for t
    using that a by (simp add: main_title_def)
  have 4: "\<exists>dir ext. args_video args = dir @ main_title args @ ext
                  \<and> (dir = [] \<or> last dir = sep)
                  \<and> sep \<notin> set (main_title args @ ext)
                  \<and> (ext = [] \<or> (hd ext = extsep \<and> extsep \<notin> set (tl ext)))"
    if "argv_title argv = None \<or> argv_title argv = Some []"
    using default_title_parts [of "args_video args"] 2 [OF that] by simp
  from 1 2 3 4 show ?thesis by blast
qed

theorem title_of_request_witness:
  "request_titles (snd (main demo_world demo_argv)) = [Some (JStr (lit ''demo''))]
   \<and> request_titles (snd (main demo_world (demo_argv\<lparr>argv_title := Some (lit ''My Title'')\<rparr>)))
       = [Some (JStr (lit ''My Title''))]"
proof -
  let ?a = "\<lparr>args_video = lit ''demo.mp4'', args_title = None, args_description = [],
              args_tags = [], args_privacy = lit ''private''\<rparr>"
  let ?b = "?a\<lparr>args_title := Some (lit ''My Title'')\<rparr>"
  have pa: "parse_args demo_argv = Inr ?a"
    by (simp add: parse_args_def demo_argv_def)
  have pb: "parse_args (demo_argv\<lparr>argv_title := Some (lit ''My Title'')\<rparr>) = Inr ?b"
    by (simp add: parse_args_def demo_argv_def)
  have g: "fst (get_youtube_client demo_world) = Inr (Youtube demo_creds)"
    by (simp add: get_youtube_client_def load_creds_def demo_world_def demo_creds_def
          token_json_def valid_def)
  have e: "path_exists demo_world (lit ''demo.mp4'')"
    by (simp add: demo_world_def)
  have ra: "request_titles (snd (main demo_world demo_argv)) = [Some (JStr (main_title ?a))]"
    using pa g e by (simp add: request_titles_main)
  have rb: "request_titles (snd (main demo_world (demo_argv\<lparr>argv_title := Some (lit ''My Title'')\<rparr>)))
              = [Some (JStr (main_title ?b))]"
    using pb g e by (simp add: request_titles_main)
  have "argv_title demo_argv = None" by (simp add: demo_argv_def)
  then have ta: "main_title ?a = fst (splitext (basename (args_video ?a)))"
    using title_of_request [OF pa, of demo_world] by blast
  have "fst (splitext (basename (args_video ?a))) = lit ''demo''"
    by (simp add: splitext_def basename_def sep_def extsep_def splitext_loop.simps)
  with ta have a: "main_title ?a = lit ''demo''" by simp
  have "argv_title (demo_argv\<lparr>argv_title := Some (lit ''My Title'')\<rparr>) = Some (lit ''My Title'')
        \<and> lit ''My Title'' \<noteq> []" by simp
  then have b: "main_title ?b = lit ''My Title''"
    using title_of_request [OF pb, of demo_world] by blast
  from ra rb a b show ?thesis by simp
qed

text \<open>
  C1 as it is claimed fails for the empty title: with \<^verbatim>\<open>--title ""\<close> and the file
  \<^verbatim>\<open>demo.mp4\<close>, line 117 falls back to the default, and the request carries the title
  \<open>demo\<close>, not the empty title that was given.
\<close>

theorem title_empty_string_counterexample:
  "argv_title (demo_argv\<lparr>argv_title := Some []\<rparr>) = Some []
   \<and> request_titles (snd (main demo_world (demo_argv\<lparr>argv_title := Some []\<rparr>)))
       = [Some (JStr (lit ''demo''))]
   \<and> request_titles (snd (main demo_world (demo_argv\<lparr>argv_title := Some []\<rparr>)))
       \<noteq> [Some (JStr [])]"
proof -
  let ?a = "\<lparr>args_video = lit ''demo.mp4'', args_title = Some [], args_description = [],
              args_tags = [], args_privacy = lit ''private''\<rparr>"
  have pa: "parse_args (demo_argv\<lparr>argv_title := Some []\<rparr>) = Inr ?a"
    by (simp add: parse_args_def demo_argv_def)
  have g: "fst (get_youtube_client demo_world) = Inr (Youtube demo_creds)"
    by (simp add: get_youtube_client_def load_creds_def demo_world_def demo_creds_def
          token_json_def valid_def)
  have e: "path_exists demo_world (lit ''demo.mp4'')"
    by (simp add: demo_world_def)
  have "main_title ?a = lit ''demo''"
    by (simp add: main_title_def splitext_def basename_def sep_def extsep_def splitext_loop.simps)
  then have "request_titles (snd (main demo_world (demo_argv\<lparr>argv_title := Some []\<rparr>)))
       = [Some (JStr (lit ''demo''))]"
    using pa g e by (simp add: request_titles_main)
  then show ?thesis by simp
qed

section \<open>The upload request\<close>

lemma request_bodies_main:
  "request_bodies (snd (main w argv)) =
     (case parse_args argv of
        Inl a \<Rightarrow> []
      | Inr args \<Rightarrow>
          if path_exists w (args_video args)
          then (case fst (get_youtube_client w) of
                  Inl a \<Rightarrow> []
                | Inr yt \<Rightarrow>
                    [upload_body (main_title args) (args_description args)
                        (if main_tags args \<noteq> [] then Some (main_tags args) else None)
                        (args_privacy args)])
          else [])"
  by (simp add: request_bodies_def requests_main split: sum.splits)

lemma request_media_main:
  "request_media (snd (main w argv)) =
     (case parse_args argv of
        Inl a \<Rightarrow> []
      | Inr args \<Rightarrow>
          if path_exists w (args_video args)
          then (case fst (get_youtube_client w) of
                  Inl a \<Rightarrow> []
                | Inr yt \<Rightarrow>
                    [\<lparr>filename = args_video args, chunksize = Some (- 1), resumable = True\<rparr>])
          else [])"
  by (simp add: request_media_def requests_main split: sum.splits)

lemma demo_client: "fst (get_youtube_client demo_world) = Inr (Youtube demo_creds)"
  by (simp add: get_youtube_client_def load_creds_def demo_world_def demo_creds_def
        token_json_def valid_def)

lemma demo_parse:
  "parse_args demo_argv =
     Inr \<lparr>args_video = lit ''demo.mp4'', args_title = None, args_description = [],
          args_tags = [], args_privacy = lit ''private''\<rparr>"
  by (simp add: parse_args_def demo_argv_def)

lemma demo_exists: "path_exists demo_world (lit ''demo.mp4'')"
  by (simp add: demo_world_def)

text \<open>
  C10. The body of every upload request is an object with the two keys \<open>snippet\<close> and
  \<open>status\<close> and no other. \<open>snippet\<close> holds \<open>title\<close> and \<open>description\<close> (the
  description also when it is empty) and, exactly when the tag list is not empty,
  \<open>tags\<close> after them; \<open>status\<close> holds \<open>privacyStatus\<close> alone.
\<close>

theorem request_body_fields:
  assumes "parse_args argv = Inr args"
    and "body \<in> set (request_bodies (snd (main w argv)))"
  shows "json_keys body = [lit ''snippet'', lit ''status'']
       \<and> lookup_path body [lit ''snippet'', lit ''title''] = Some (JStr (main_title args))
       \<and> lookup_path body [lit ''snippet'', lit ''description'']
            = Some (JStr (args_description args))
       \<and> lookup_path body [lit ''status'', lit ''privacyStatus'']
            = Some (JStr (args_privacy args))
       \<and> map_option json_keys (lookup_path body [lit ''snippet''])
            = Some (if main_tags args \<noteq> [] then [lit ''title'', lit ''description'', lit ''tags'']
                    else [lit ''title'', lit ''description''])
       \<and> map_option json_keys (lookup_path body [lit ''status'']) = Some [lit ''privacyStatus'']
       \<and> lookup_path body [lit ''snippet'', lit ''tags'']
            = (if main_tags args \<noteq> [] then Some (JList (map JStr (main_tags args))) else None)"
proof -
  have b: "body = upload_body (main_title args) (args_description args)
                    (if main_tags args \<noteq> [] then Some (main_tags args) else None)
                    (args_privacy args)"
    using assms
    by (cases "path_exists w (args_video args)"; cases "fst (get_youtube_client w)")
       (simp_all add: request_bodies_main)
  show ?thesis
    unfolding b by (simp add: upload_body_def dict_get_def dict_keys_def Let_def)
qed

theorem request_body_fields_witness:
  "request_bodies (snd (main demo_world demo_argv))
     = [upload_body (lit ''demo'') [] None (lit ''private'')]
   \<and> lookup_path (upload_body (lit ''demo'') [] None (lit ''private''))
        [lit ''snippet'', lit ''description''] = Some (JStr [])
   \<and> lookup_path (upload_body (lit ''demo'') [] None (lit ''private''))
        [lit ''snippet'', lit ''tags''] = None
   \<and> json_keys (upload_body (lit ''demo'') [] None (lit ''private''))
        = [lit ''snippet'', lit ''status'']"
proof -
  let ?a = "\<lparr>args_video = lit ''demo.mp4'', args_title = None, args_description = [],
              args_tags = [], args_privacy = lit ''private''\<rparr>"
  let ?b = "upload_body (lit ''demo'') [] None (lit ''private'')"
  have t: "main_title ?a = lit ''demo''"
    by (simp add: main_title_def splitext_def basename_def sep_def extsep_def splitext_loop.simps)
  have g: "main_tags ?a = []" by (simp add: main_tags_def)
  have r: "request_bodies (snd (main demo_world demo_argv)) = [?b]"
    using demo_parse demo_client demo_exists t g by (simp add: request_bodies_main)
  then have m: "?b \<in> set (request_bodies (snd (main demo_world demo_argv)))" by simp
  from request_body_fields [OF demo_parse m] g r show ?thesis by simp
qed

text \<open>
  C3, as the script has it. Every upload request is made with a \<^verbatim>\<open>MediaFileUpload\<close> that
  is resumable and is given the chunk size \<open>-1\<close> by the script: the chunk size is not
  left to the library's default.
\<close>

theorem media_chunksize_is_minus_one:
  "\<forall>media \<in> set (request_media (snd (main w argv))).
      chunksize media = Some (- 1) \<and> resumable media"
proof (cases "parse_args argv")
  case (Inl a)
  then show ?thesis by (simp add: request_media_main)
next
  case (Inr args)
  then show ?thesis
    by (cases "path_exists w (args_video args)"; cases "fst (get_youtube_client w)")
       (simp_all add: request_media_main)
qed

theorem media_chunksize_is_minus_one_witness:
  "request_media (snd (main demo_world demo_argv)) \<noteq> []
   \<and> chunksize (hd (request_media (snd (main demo_world demo_argv)))) = Some (- 1)
   \<and> resumable (hd (request_media (snd (main demo_world demo_argv))))"
proof -
  have r: "request_media (snd (main demo_world demo_argv))
             = [\<lparr>filename = lit ''demo.mp4'', chunksize = Some (- 1), resumable = True\<rparr>]"
    using demo_parse demo_client demo_exists by (simp add: request_media_main)
  then have h: "hd (request_media (snd (main demo_world demo_argv)))
               \<in> set (request_media (snd (main demo_world demo_argv)))" by simp
  from media_chunksize_is_minus_one [of demo_world demo_argv] h
  have "chunksize (hd (request_media (snd (main demo_world demo_argv)))) = Some (- 1)
        \<and> resumable (hd (request_media (snd (main demo_world demo_argv))))"
    by (rule bspec)
  moreover have "request_media (snd (main demo_world demo_argv)) \<noteq> []" using r by simp
  ultimately show ?thesis by simp
qed

text \<open>
  C3 as it is claimed fails: in the example run the \<^verbatim>\<open>MediaFileUpload\<close> of the request
  has the chunk size \<open>-1\<close>, given by the script, where a call that left the chunk size
  to the library would have none.
\<close>

theorem media_default_chunksize_counterexample:
  "map chunksize (request_media (snd (main demo_world demo_argv))) = [Some (- 1)]
   \<and> map chunksize (request_media (snd (main demo_world demo_argv))) \<noteq> [None]"
  using demo_parse demo_client demo_exists by (simp add: request_media_main)

section \<open>The tags\<close>

lemma strip_empty_iff: "strip t = [] \<longleftrightarrow> (\<forall>c \<in> set t. isspace c)"
proof
  assume "strip t = []"
  then have "\<forall>c \<in> set (dropWhile isspace t). isspace c"
    by (simp add: strip_def dropWhile_eq_Nil_conv)
  then have "dropWhile isspace t = []"
    using hd_dropWhile [of isspace t] by (metis hd_in_set)
  then show "\<forall>c \<in> set t. isspace c" by (simp add: dropWhile_eq_Nil_conv)
next
  assume "\<forall>c \<in> set t. isspace c"
  then have "dropWhile isspace t = []" by (simp add: dropWhile_eq_Nil_conv)
  then show "strip t = []" by (simp only: strip_def rev.simps dropWhile.simps)
qed

lemma strip_parts:
  "\<exists>a b. t = a @ strip t @ b \<and> (\<forall>c \<in> set a. isspace c) \<and> (\<forall>c \<in> set b. isspace c)
     \<and> (strip t = [] \<or> (\<not> isspace (hd (strip t)) \<and> \<not> isspace (last (strip t))))"
proof -
  let ?u = "dropWhile isspace t"
  let ?a = "takeWhile isspace t"
  let ?b = "rev (takeWhile isspace (rev ?u))"
  have t: "t = ?a @ ?u" by simp
  have "strip t @ ?b = rev (takeWhile isspace (rev ?u) @ dropWhile isspace (rev ?u))"
    by (simp only: strip_def rev_append)
  also have "\<dots> = rev (rev ?u)" by (simp only: takeWhile_dropWhile_id)
  also have "\<dots> = ?u" by (simp only: rev_rev_ident)
  finally have u: "?u = strip t @ ?b" by (rule sym)
  have a: "\<forall>c \<in> set ?a. isspace c" by (auto dest: set_takeWhileD)
  have b: "\<forall>c \<in> set ?b. isspace c" by (auto dest: set_takeWhileD)
  have e: "\<not> isspace (hd (strip t)) \<and> \<not> isspace (last (strip t))" if n: "strip t \<noteq> []"
  proof -
    from n have d: "dropWhile isspace (rev ?u) \<noteq> []" by (simp add: strip_def)
    then have "\<not> isspace (hd (dropWhile isspace (rev ?u)))" by (rule hd_dropWhile)
    then have l: "\<not> isspace (last (strip t))" using d by (simp add: strip_def last_rev)
    from n u have "?u \<noteq> []" by (metis append_is_Nil_conv)
    then have "\<not> isspace (hd ?u)" by (rule hd_dropWhile)
    moreover have "hd ?u = hd (strip t)" using u n by (metis hd_append2)
    ultimately show ?thesis using l by simp
  qed
  have "t = ?a @ strip t @ ?b" using t u by metis
  with a b e show ?thesis by blast
qed

lemma split_from_join:
  "concat (map (\<lambda>p. p @ [c]) (split_from s c cur)) = cur @ s @ [c]"
  by (induction s arbitrary: cur) auto

lemma split_from_no_sep:
  "c \<notin> set cur \<Longrightarrow> \<forall>p \<in> set (split_from s c cur). c \<notin> set p"
proof (induction s arbitrary: cur)
  case Nil
  then show ?case by simp
next
  case (Cons a s)
  show ?case
  proof (cases "a = c")
    case True
    with Cons.prems Cons.IH [of "[]"] show ?thesis by simp
  next
    case False
    with Cons.prems Cons.IH [of "cur @ [a]"] show ?thesis by simp
  qed
qed

lemma split_from_chars:
  "(\<Union>p \<in> set (split_from s c cur). set p) = set cur \<union> (set s - {c})"
  by (induction s arbitrary: cur) auto

lemma split_from_length: "length (split_from s c cur) = Suc (count_list s c)"
  by (induction s arbitrary: cur) auto

lemma main_tags_eq:
  "main_tags args = filter (\<lambda>t. t \<noteq> []) (map strip (split (args_tags args) comma))"
proof (cases "args_tags args = []")
  case True
  then show ?thesis by (simp add: main_tags_def split_def strip_def)
next
  case False
  then show ?thesis by (simp add: main_tags_def filter_map comp_def)
qed

lemma main_tags_empty_iff:
  "main_tags args = [] \<longleftrightarrow> (\<forall>c \<in> set (args_tags args). c = comma \<or> isspace c)"
proof -
  have "main_tags args = [] \<longleftrightarrow> (\<forall>p \<in> set (split (args_tags args) comma). strip p = [])"
    by (auto simp: main_tags_eq filter_empty_conv)
  also have "\<dots> \<longleftrightarrow> (\<forall>c \<in> (\<Union>p \<in> set (split (args_tags args) comma). set p). isspace c)"
    by (auto simp: strip_empty_iff)
  also have "\<dots> \<longleftrightarrow> (\<forall>c \<in> set (args_tags args) - {comma}. isspace c)"
    by (simp only: split_def split_from_chars) simp
  also have "\<dots> \<longleftrightarrow> (\<forall>c \<in> set (args_tags args). c = comma \<or> isspace c)" by auto
  finally show ?thesis .
qed

lemma request_tags_main:
  "request_tags (snd (main w argv)) =
     (case parse_args argv of
        Inl a \<Rightarrow> []
      | Inr args \<Rightarrow>
          if path_exists w (args_video args)
          then (case fst (get_youtube_client w) of
                  Inl a \<Rightarrow> []
                | Inr yt \<Rightarrow>
                    [if main_tags args = [] then None
                     else Some (JList (map JStr (main_tags args)))])
          else [])"
  by (simp add: request_tags_def request_bodies_main upload_body_def dict_get_def Let_def
           split: sum.splits)

text \<open>
  C2. The tag list is the tag string split at every comma (no piece holds a comma, and
  the pieces joined by commas are the tag string), each piece stripped of the whitespace
  at its two ends, with the pieces that strip to nothing left out, so no tag is the
  empty string. The tag list is empty exactly when every character of the tag string is
  a comma or whitespace (the empty tag string among them), and then no upload request
  has a \<open>tags\<close> key under \<open>snippet\<close>; otherwise every request carries the list.
\<close>

theorem tags_split_and_stripped:
  assumes "parse_args argv = Inr args"
  shows "main_tags args = filter (\<lambda>t. t \<noteq> []) (map strip (split (args_tags args) comma))
       \<and> [] \<notin> set (main_tags args)
       \<and> (\<forall>p \<in> set (split (args_tags args) comma). comma \<notin> set p)
       \<and> concat (map (\<lambda>p. p @ [comma]) (split (args_tags args) comma)) = args_tags args @ [comma]
       \<and> (\<forall>p. \<exists>a b. p = a @ strip p @ b \<and> (\<forall>c \<in> set a. isspace c) \<and> (\<forall>c \<in> set b. isspace c)
              \<and> (strip p = [] \<or> (\<not> isspace (hd (strip p)) \<and> \<not> isspace (last (strip p)))))
       \<and> (main_tags args = [] \<longleftrightarrow> (\<forall>c \<in> set (args_tags args). c = comma \<or> isspace c))
       \<and> (\<forall>t \<in> set (request_tags (snd (main w argv))).
              t = (if main_tags args = [] then None
                   else Some (JList (map JStr (main_tags args)))))"
proof -
  have 1: "main_tags args = filter (\<lambda>t. t \<noteq> []) (map strip (split (args_tags args) comma))"
    by (rule main_tags_eq)
  have 2: "[] \<notin> set (main_tags args)" by (simp add: main_tags_eq)
  have 3: "\<forall>p \<in> set (split (args_tags args) comma). comma \<notin> set p"
    unfolding split_def by (rule split_from_no_sep) simp
  have 4: "concat (map (\<lambda>p. p @ [comma]) (split (args_tags args) comma)) = args_tags args @ [comma]"
    unfolding split_def by (simp only: split_from_join append_Nil)
  have 5: "\<forall>t \<in> set (request_tags (snd (main w argv))).
              t = (if main_tags args = [] then None
                   else Some (JList (map JStr (main_tags args))))"
    using assms
    by (cases "path_exists w (args_video args)"; cases "fst (get_youtube_client w)")
       (simp_all add: request_tags_main)
  from 1 2 3 4 5 strip_parts main_tags_empty_iff [of args] show ?thesis by blast
qed

theorem tags_split_and_stripped_witness:
  "main_tags \<lparr>args_video = lit ''demo.mp4'', args_title = None, args_description = [],
              args_tags = lit ''cats, dogs ,, '', args_privacy = lit ''private''\<rparr>
     = [lit ''cats'', lit ''dogs'']
   \<and> request_tags (snd (main demo_world (demo_argv\<lparr>argv_tags := Some (lit ''cats, dogs ,, '')\<rparr>)))
     = [Some (JList [JStr (lit ''cats''), JStr (lit ''dogs'')])]
   \<and> request_tags (snd (main demo_world (demo_argv\<lparr>argv_tags := Some (lit '' , ,'')\<rparr>))) = [None]
   \<and> request_tags (snd (main demo_world demo_argv)) = [None]"
proof -
  let ?a = "\<lparr>args_video = lit ''demo.mp4'', args_title = None, args_description = [],
              args_tags = lit ''cats, dogs ,, '', args_privacy = lit ''private''\<rparr>"
  let ?b = "\<lparr>args_video = lit ''demo.mp4'', args_title = None, args_description = [],
              args_tags = lit '' , ,'', args_privacy = lit ''private''\<rparr>"
  let ?c = "\<lparr>args_video = lit ''demo.mp4'', args_title = None, args_description = [],
              args_tags = [], args_privacy = lit ''private''\<rparr>"
  have pa: "parse_args (demo_argv\<lparr>argv_tags := Some (lit ''cats, dogs ,, '')\<rparr>) = Inr ?a"
    by (simp add: parse_args_def demo_argv_def)
  have pb: "parse_args (demo_argv\<lparr>argv_tags := Some (lit '' , ,'')\<rparr>) = Inr ?b"
    by (simp add: parse_args_def demo_argv_def)
  have ta: "main_tags ?a = filter (\<lambda>t. t \<noteq> []) (map strip (split (args_tags ?a) comma))"
    using tags_split_and_stripped [OF pa, of demo_world] by blast
  have a: "main_tags ?a = [lit ''cats'', lit ''dogs'']"
    unfolding ta by (simp add: split_def strip_def isspace_def comma_def)
  have "\<forall>c \<in> set (args_tags ?b). c = comma \<or> isspace c"
    by (simp add: isspace_def comma_def)
  then have b: "main_tags ?b = []"
    using tags_split_and_stripped [OF pb, of demo_world] by blast
  have "\<forall>c \<in> set (args_tags ?c). c = comma \<or> isspace c" by simp
  then have c: "main_tags ?c = []"
    using tags_split_and_stripped [OF demo_parse, of demo_world] by blast
  have ra: "request_tags (snd (main demo_world (demo_argv\<lparr>argv_tags := Some (lit ''cats, dogs ,, '')\<rparr>)))
     = [Some (JList [JStr (lit ''cats''), JStr (lit ''dogs'')])]"
    using pa demo_client demo_exists a by (simp add: request_tags_main)
  have rb: "request_tags (snd (main demo_world (demo_argv\<lparr>argv_tags := Some (lit '' , ,'')\<rparr>))) = [None]"
    using pb demo_client demo_exists b by (simp add: request_tags_main)
  have rc: "request_tags (snd (main demo_world demo_argv)) = [None]"
    using demo_parse demo_client demo_exists c by (simp add: request_tags_main)
  from a ra rb rc show ?thesis by simp
qed

section \<open>Before the upload\<close>

lemma token_file_after_append:
  "token_file_after f (xs @ ys) = token_file_after (token_file_after f xs) ys"
  by (induction f xs rule: token_file_after.induct) auto

lemma credential_events_upload_loop: "credential_events (snd (upload_loop cs)) = []"
  by (induction cs rule: upload_loop.induct)
     (auto simp: credential_events_def Let_def split: option.splits prod.splits)

lemma credential_events_report: "credential_events (snd (report r)) = []"
  by (auto simp: credential_events_def report_def split: option.splits)

lemma credential_events_upload_video:
  "credential_events (snd (upload_video w yt file_path t d tg p)) = []"
proof -
  obtain x tr where l: "upload_loop (next_chunk w) = (x, tr)" by (cases "upload_loop (next_chunk w)")
  have tr: "credential_events tr = []" using credential_events_upload_loop [of "next_chunk w"] l by simp
  have r: "\<And>y res tr'. report y = (res, tr') \<Longrightarrow> credential_events tr' = []"
    using credential_events_report by (metis snd_conv)
  show ?thesis
    using l tr
    by (auto simp: upload_video_def Let_def credential_events_def dest: r [unfolded credential_events_def]
             split: option.splits sum.splits exn.splits prod.splits)
qed

lemma snd_main:
  "snd (main w argv) =
     (case parse_args argv of
        Inl a \<Rightarrow> []
      | Inr args \<Rightarrow>
          if path_exists w (args_video args)
          then (case get_youtube_client w of
                  (Inl a, tr) \<Rightarrow> tr
                | (Inr yt, tr) \<Rightarrow>
                    tr @ snd (upload_video w yt (args_video args) (main_title args)
                                (args_description args)
                                (if main_tags args \<noteq> [] then Some (main_tags args) else None)
                                (args_privacy args)))
          else [])"
  by (auto simp: main_def Let_def split: sum.splits prod.splits option.splits)

lemma credential_events_main:
  "credential_events (snd (main w argv)) =
     (case parse_args argv of
        Inl a \<Rightarrow> []
      | Inr args \<Rightarrow>
          if path_exists w (args_video args)
          then credential_events (snd (get_youtube_client w))
          else [])"
proof -
  have "\<And>yt a b c d e. filter credential_event (snd (upload_video w yt a b c d e)) = []"
    using credential_events_upload_video by (simp add: credential_events_def)
  then have u: "\<And>yt a b c d e. credential_events (snd (upload_video w yt a b c d e)) = []"
    by (simp add: credential_events_def)
  show ?thesis
  proof (cases "parse_args argv")
    case (Inl a)
    then show ?thesis by (simp add: snd_main credential_events_def)
  next
    case (Inr args)
    obtain c tr where g: "get_youtube_client w = (c, tr)" by (cases "get_youtube_client w")
    have app: "\<And>xs ys. credential_events (xs @ ys) = credential_events xs @ credential_events ys"
      by (simp add: credential_events_def)
    show ?thesis
      using Inr g
      by (cases "path_exists w (args_video args)"; cases c)
         (simp_all add: snd_main app u, simp_all add: credential_events_def)
  qed
qed

lemma token_file_after_credential_events:
  "token_file_after f (credential_events es) = token_file_after f es"
  unfolding credential_events_def
  by (induction f es rule: token_file_after.induct) auto

lemma parse_args_video:
  "parse_args argv = Inr args \<Longrightarrow> argv_video argv = Some (args_video args)"
  by (auto simp: parse_args_def split: option.splits if_splits)

text \<open>
  C4, as the script has it. When the video path does not exist, the run has no event at
  all: no token file is read or written, no refresh or consent flow is made, no client is
  built and nothing is sent. For a command line \<^verbatim>\<open>parse_args\<close> accepts, the run ends in
  \<^verbatim>\<open>sys.exit("File not found: ...")\<close>, which prints the message and gives exit status 1.
  For a command line \<^verbatim>\<open>parse_args\<close> rejects, the run has already ended at line 113 in
  the usage error, with exit status 2.
\<close>

theorem missing_video_exits_before_credentials:
  assumes "argv_video argv = Some v" and "\<not> path_exists w v"
  shows "snd (main w argv) = []
       \<and> (\<forall>args. parse_args argv = Inr args \<longrightarrow>
            main w argv = (Some (Inl (SystemExit_str (lit ''File not found: '' @ v))), [])
            \<and> run_status (main w argv) = Some 1)
       \<and> (\<forall>a. parse_args argv = Inl a \<longrightarrow>
            main w argv = (Some (Inl (SystemExit_int 2)), [])
            \<and> run_status (main w argv) = Some 2)"
proof -
  have v: "args_video args = v" if "parse_args argv = Inr args" for args
    using parse_args_video [OF that] assms(1) by simp
  have 1: "snd (main w argv) = []"
  proof (cases "parse_args argv")
    case (Inl a)
    then show ?thesis by (simp add: main_def)
  next
    case (Inr args)
    with v [OF Inr] assms(2) show ?thesis by (simp add: main_def)
  qed
  have 2: "main w argv = (Some (Inl (SystemExit_str (lit ''File not found: '' @ v))), [])
            \<and> run_status (main w argv) = Some 1" if "parse_args argv = Inr args" for args
    using that v [OF that] assms(2) by (simp add: main_def run_status_def)
  have 3: "main w argv = (Some (Inl (SystemExit_int 2)), [])
            \<and> run_status (main w argv) = Some 2" if "parse_args argv = Inl a" for a
  proof -
    have "a = SystemExit_int 2"
      using that by (auto simp: parse_args_def split: if_splits option.splits)
    with that show ?thesis by (simp add: main_def run_status_def)
  qed
  from 1 2 3 show ?thesis by blast
qed

theorem missing_video_exits_before_credentials_witness:
  "main demo_world (demo_argv\<lparr>argv_video := Some (lit ''missing.mp4'')\<rparr>)
     = (Some (Inl (SystemExit_str (lit ''File not found: missing.mp4''))), [])
   \<and> run_status (main demo_world (demo_argv\<lparr>argv_video := Some (lit ''missing.mp4'')\<rparr>)) = Some 1"
proof -
  let ?argv = "demo_argv\<lparr>argv_video := Some (lit ''missing.mp4'')\<rparr>"
  have v: "argv_video ?argv = Some (lit ''missing.mp4'')" by simp
  have e: "\<not> path_exists demo_world (lit ''missing.mp4'')" by (simp add: demo_world_def)
  have p: "parse_args ?argv = Inr \<lparr>args_video = lit ''missing.mp4'', args_title = None,
             args_description = [], args_tags = [], args_privacy = lit ''private''\<rparr>"
    by (simp add: parse_args_def demo_argv_def)
  from missing_video_exits_before_credentials [OF v e] p
  have "main demo_world ?argv
          = (Some (Inl (SystemExit_str (lit ''File not found: '' @ lit ''missing.mp4''))), [])
        \<and> run_status (main demo_world ?argv) = Some 1"
    by blast
  then show ?thesis by (simp add: run_status_def)
qed

text \<open>
  C4 as it is claimed fails for a command line that \<^verbatim>\<open>parse_args\<close> rejects: with the
  missing file \<^verbatim>\<open>missing.mp4\<close> and \<^verbatim>\<open>--privacy weird\<close>, the run ends at line 113 with
  exit status 2, not 1, before the check of the path at line 114.
\<close>

theorem missing_video_invalid_privacy_counterexample:
  "argv_video (demo_argv\<lparr>argv_video := Some (lit ''missing.mp4''),
                          argv_privacy := Some (lit ''weird'')\<rparr>) = Some (lit ''missing.mp4'')
   \<and> \<not> path_exists demo_world (lit ''missing.mp4'')
   \<and> main demo_world (demo_argv\<lparr>argv_video := Some (lit ''missing.mp4''),
                                  argv_privacy := Some (lit ''weird'')\<rparr>)
       = (Some (Inl (SystemExit_int 2)), [])
   \<and> run_status (main demo_world (demo_argv\<lparr>argv_video := Some (lit ''missing.mp4''),
                                              argv_privacy := Some (lit ''weird'')\<rparr>))
       \<noteq> Some 1"
  by (simp add: main_def parse_args_def privacy_choices_def demo_argv_def demo_world_def
        run_status_def)

text \<open>
  C5. A command line that \<^verbatim>\<open>parse_args\<close> accepts has a privacy status among
  \<open>public\<close>, \<open>unlisted\<close> and \<open>private\<close>: the value given, or \<open>private\<close> when none
  is given. Each of the three values is accepted, and any other value ends the run in a
  usage error (exit status 2) with no event.
\<close>

theorem privacy_choices_enforced:
  "(\<forall>args. parse_args argv = Inr args \<longrightarrow>
       args_privacy args \<in> {lit ''public'', lit ''unlisted'', lit ''private''}
       \<and> args_privacy args = (case argv_privacy argv of None \<Rightarrow> lit ''private'' | Some p \<Rightarrow> p))
   \<and> (\<forall>p v. argv_privacy argv = Some p \<and> argv_video argv = Some v
         \<and> p \<in> {lit ''public'', lit ''unlisted'', lit ''private''}
         \<longrightarrow> (\<exists>args. parse_args argv = Inr args \<and> args_privacy args = p))
   \<and> (\<forall>p. argv_privacy argv = Some p
         \<and> p \<notin> {lit ''public'', lit ''unlisted'', lit ''private''}
         \<longrightarrow> parse_args argv = Inl (SystemExit_int 2)
             \<and> main w argv = (Some (Inl (SystemExit_int 2)), [])
             \<and> run_status (main w argv) = Some 2)"
proof -
  have 1: "args_privacy args \<in> {lit ''public'', lit ''unlisted'', lit ''private''}
       \<and> args_privacy args = (case argv_privacy argv of None \<Rightarrow> lit ''private'' | Some p \<Rightarrow> p)"
    if "parse_args argv = Inr args" for args
    using that by (auto simp: parse_args_def privacy_choices_def split: option.splits if_splits)
  have 2: "\<exists>args. parse_args argv = Inr args \<and> args_privacy args = p"
    if "argv_privacy argv = Some p \<and> argv_video argv = Some v
         \<and> p \<in> {lit ''public'', lit ''unlisted'', lit ''private''}" for p v
    using that by (auto simp: parse_args_def privacy_choices_def)
  have 3: "parse_args argv = Inl (SystemExit_int 2)
             \<and> main w argv = (Some (Inl (SystemExit_int 2)), [])
             \<and> run_status (main w argv) = Some 2"
    if "argv_privacy argv = Some p
         \<and> p \<notin> {lit ''public'', lit ''unlisted'', lit ''private''}" for p
    using that by (auto simp: parse_args_def privacy_choices_def main_def run_status_def)
  from 1 2 3 show ?thesis by blast
qed

theorem privacy_choices_enforced_witness:
  "main demo_world (demo_argv\<lparr>argv_privacy := Some (lit ''weird'')\<rparr>)
     = (Some (Inl (SystemExit_int 2)), [])
   \<and> args_privacy \<lparr>args_video = lit ''demo.mp4'', args_title = None, args_description = [],
                    args_tags = [], args_privacy = lit ''private''\<rparr> = lit ''private''"
proof -
  let ?argv = "demo_argv\<lparr>argv_privacy := Some (lit ''weird'')\<rparr>"
  have "argv_privacy ?argv = Some (lit ''weird'')
        \<and> lit ''weird'' \<notin> {lit ''public'', lit ''unlisted'', lit ''private''}"
    by simp
  then have a: "main demo_world ?argv = (Some (Inl (SystemExit_int 2)), [])"
    using privacy_choices_enforced [of ?argv demo_world] by blast
  have "args_privacy \<lparr>args_video = lit ''demo.mp4'', args_title = None, args_description = [],
                    args_tags = [], args_privacy = lit ''private''\<rparr>
          = (case argv_privacy demo_argv of None \<Rightarrow> lit ''private'' | Some p \<Rightarrow> p)"
    using privacy_choices_enforced [of demo_argv demo_world] demo_parse by blast
  with a show ?thesis by simp
qed

section \<open>The credential\<close>

lemma token_file_after_main:
  "token_file_after f (snd (main w argv)) =
     token_file_after f (credential_events (snd (main w argv)))"
  by (rule token_file_after_credential_events [symmetric])

lemma credential_event_in_credential_events:
  "e \<in> set es \<Longrightarrow> credential_event e \<Longrightarrow> e \<in> set (credential_events es)"
  by (simp add: credential_events_def)

text \<open>
  C6. When the token file exists and the credential loaded from it is valid (which, by
  the library's definition of \<^verbatim>\<open>valid\<close>, includes that it has not expired),
  \<^verbatim>\<open>get_youtube_client\<close> loads the token file, builds the client with that credential
  and does nothing else. In the whole run the only credential event is the loading of the
  token file: there is no consent flow and no refresh, the token file is not written,
  and its contents after the run are its contents before.
\<close>

theorem valid_token_skips_consent_flow:
  assumes "path_exists w token_json"
    and "from_authorized_user_file w = Inr creds"
    and "valid creds"
  shows "get_youtube_client w = (Inr (Youtube creds), [Load_token_file, Build_client creds])
       \<and> set (credential_events (snd (main w argv))) \<subseteq> {Load_token_file}
       \<and> Consent_flow \<notin> set (snd (main w argv))
       \<and> (\<forall>s. Write_token_file s \<notin> set (snd (main w argv)))
       \<and> token_file_after f (snd (main w argv)) = f"
proof -
  have g: "get_youtube_client w = (Inr (Youtube creds), [Load_token_file, Build_client creds])"
    using assms by (simp add: get_youtube_client_def load_creds_def)
  have c: "credential_events (snd (main w argv)) = [] \<or>
           credential_events (snd (main w argv)) = [Load_token_file]"
  proof (cases "parse_args argv")
    case (Inl a)
    then show ?thesis by (simp add: credential_events_main)
  next
    case (Inr args)
    then show ?thesis
      using g by (cases "path_exists w (args_video args)")
                 (simp_all add: credential_events_main, simp_all add: credential_events_def)
  qed
  then have s: "set (credential_events (snd (main w argv))) \<subseteq> {Load_token_file}" by auto
  have n: "e \<notin> set (snd (main w argv))" if "credential_event e" "e \<noteq> Load_token_file" for e
    using credential_event_in_credential_events [of e "snd (main w argv)"] s that by auto
  have t: "token_file_after f (snd (main w argv)) = f"
    using c by (subst token_file_after_main) auto
  from g s n [of Consent_flow] n [of "Write_token_file _"] t show ?thesis by simp
qed

theorem valid_token_skips_consent_flow_witness:
  "get_youtube_client demo_world
     = (Inr (Youtube demo_creds), [Load_token_file, Build_client demo_creds])
   \<and> Consent_flow \<notin> set (snd (main demo_world demo_argv))
   \<and> token_file_after (Some (lit ''ya29.a0 1//0g'')) (snd (main demo_world demo_argv))
       = Some (lit ''ya29.a0 1//0g'')"
proof -
  have 1: "path_exists demo_world token_json" by (simp add: demo_world_def token_json_def)
  have 2: "from_authorized_user_file demo_world = Inr demo_creds" by (simp add: demo_world_def)
  have 3: "valid demo_creds" by (simp add: valid_def demo_creds_def)
  from valid_token_skips_consent_flow [OF 1 2 3, of demo_argv "Some (lit ''ya29.a0 1//0g'')"]
  show ?thesis by simp
qed

text \<open>
  C7. When the token file exists and holds an expired credential with a refresh token
  that is not empty, \<^verbatim>\<open>get_youtube_client\<close> makes the refresh call on that credential
  and runs no consent flow. When the call returns, the refreshed credential is the one
  the client is built with, and its serialisation is written to the token file in place
  of what the file held, also at the end of the whole run.
\<close>

theorem expired_token_is_refreshed_and_rewritten:
  assumes "path_exists w token_json"
    and "from_authorized_user_file w = Inr creds"
    and "expired creds"
    and "refresh_token creds = Some r" and "r \<noteq> []"
  shows "Refresh creds \<in> set (snd (get_youtube_client w))
       \<and> Consent_flow \<notin> set (snd (get_youtube_client w))
       \<and> (\<forall>creds'. refresh w creds = Inr creds' \<longrightarrow>
            get_youtube_client w
              = (Inr (Youtube creds'),
                 [Load_token_file, Refresh creds, Write_token_file (to_json creds'),
                  Build_client creds'])
            \<and> token_file_after f (snd (get_youtube_client w)) = Some (to_json creds')
            \<and> (\<forall>args. parse_args argv = Inr args \<and> path_exists w (args_video args) \<longrightarrow>
                  token_file_after f (snd (main w argv)) = Some (to_json creds')))"
proof -
  have nv: "\<not> valid creds" using assms(3) by (simp add: valid_def)
  have l: "load_creds w = (Inr (Some creds), [Load_token_file])"
    using assms(1,2) by (simp add: load_creds_def)
  have rn: "renew w (Some creds) =
              (case refresh w creds of
                 Inl e \<Rightarrow> (Inl (Uncaught e), [Refresh creds])
               | Inr creds' \<Rightarrow> (Inr creds', [Refresh creds]))"
    using assms(3,4,5) by (simp add: renew_def split: sum.splits)
  have 1: "Refresh creds \<in> set (snd (get_youtube_client w))
           \<and> Consent_flow \<notin> set (snd (get_youtube_client w))"
    using l nv rn by (cases "refresh w creds") (simp_all add: get_youtube_client_def)
  have 2: "get_youtube_client w
              = (Inr (Youtube creds'),
                 [Load_token_file, Refresh creds, Write_token_file (to_json creds'),
                  Build_client creds'])" if "refresh w creds = Inr creds'" for creds'
    using l nv rn that by (simp add: get_youtube_client_def)
  have 3: "token_file_after f (snd (get_youtube_client w)) = Some (to_json creds')"
    if "refresh w creds = Inr creds'" for creds'
    using 2 [OF that] by simp
  have 4: "token_file_after f (snd (main w argv)) = Some (to_json creds')"
    if "refresh w creds = Inr creds'" "parse_args argv = Inr args \<and> path_exists w (args_video args)"
    for creds' args
  proof -
    have "credential_events (snd (main w argv)) = credential_events (snd (get_youtube_client w))"
      using that(2) by (simp add: credential_events_main)
    then have "token_file_after f (snd (main w argv))
                 = token_file_after f (snd (get_youtube_client w))"
      by (metis token_file_after_credential_events)
    with 3 [OF that(1)] show ?thesis by simp
  qed
  from 1 2 3 4 show ?thesis by blast
qed

theorem expired_token_is_refreshed_and_rewritten_witness:
  "get_youtube_client
     (demo_world\<lparr>from_authorized_user_file := Inr (demo_creds\<lparr>expired := True\<rparr>)\<rparr>)
     = (Inr (Youtube (demo_creds\<lparr>token := Some (lit ''ya29.b1''), expired := False,
                                  to_json := lit ''ya29.b1 1//0g''\<rparr>)),
        [Load_token_file, Refresh (demo_creds\<lparr>expired := True\<rparr>),
         Write_token_file (lit ''ya29.b1 1//0g''),
         Build_client (demo_creds\<lparr>token := Some (lit ''ya29.b1''), expired := False,
                                   to_json := lit ''ya29.b1 1//0g''\<rparr>)])
   \<and> token_file_after (Some (lit ''ya29.a0 1//0g''))
        (snd (main (demo_world\<lparr>from_authorized_user_file := Inr (demo_creds\<lparr>expired := True\<rparr>)\<rparr>)
                demo_argv))
       = Some (lit ''ya29.b1 1//0g'')"
proof -
  let ?w = "demo_world\<lparr>from_authorized_user_file := Inr (demo_creds\<lparr>expired := True\<rparr>)\<rparr>"
  let ?c = "demo_creds\<lparr>expired := True\<rparr>"
  let ?c' = "demo_creds\<lparr>token := Some (lit ''ya29.b1''), expired := False,
                        to_json := lit ''ya29.b1 1//0g''\<rparr>"
  have 1: "path_exists ?w token_json" by (simp add: demo_world_def token_json_def)
  have 2: "from_authorized_user_file ?w = Inr ?c" by simp
  have 3: "expired ?c" by simp
  have 4: "refresh_token ?c = Some (lit ''1//0g'')" by (simp add: demo_creds_def)
  have 5: "lit ''1//0g'' \<noteq> []" by simp
  have r: "refresh ?w ?c = Inr ?c'" by (simp add: demo_world_def demo_creds_def)
  have e: "parse_args demo_argv = Inr \<lparr>args_video = lit ''demo.mp4'', args_title = None,
             args_description = [], args_tags = [], args_privacy = lit ''private''\<rparr>
           \<and> path_exists ?w (args_video \<lparr>args_video = lit ''demo.mp4'', args_title = None,
             args_description = [], args_tags = [], args_privacy = lit ''private''\<rparr>)"
    using demo_parse by (simp add: demo_world_def)
  from expired_token_is_refreshed_and_rewritten
         [OF 1 2 3 4 5, of "Some (lit ''ya29.a0 1//0g'')" demo_argv] r e
  have "get_youtube_client ?w
          = (Inr (Youtube ?c'),
             [Load_token_file, Refresh ?c, Write_token_file (to_json ?c'), Build_client ?c'])
        \<and> token_file_after (Some (lit ''ya29.a0 1//0g'')) (snd (main ?w demo_argv))
            = Some (to_json ?c')"
    by blast
  then show ?thesis by simp
qed

section \<open>The upload loop\<close>

lemma upload_loop_raises:
  "upload_loop (map (\<lambda>s. Chunk s None) statuses @ Raises x # rest) =
     (Some (Inl x),
      concat (map (\<lambda>s. Next_chunk #
                      (case s of None \<Rightarrow> []
                       | Some n \<Rightarrow> [Print (lit ''Uploaded '' @ str_int n @ lit ''%'')]))
                statuses) @ [Next_chunk])"
  by (induction statuses) (simp_all add: Let_def)

lemma printed_progress:
  "printed (concat (map (\<lambda>s. Next_chunk #
                      (case s of None \<Rightarrow> []
                       | Some n \<Rightarrow> [Print (lit ''Uploaded '' @ str_int n @ lit ''%'')]))
                statuses)) =
     concat (map (\<lambda>s. case s of None \<Rightarrow> []
                      | Some n \<Rightarrow> [lit ''Uploaded '' @ str_int n @ lit ''%'']) statuses)"
  by (induction statuses) (auto simp: printed_append split: option.splits)

lemma next_chunks_progress:
  "length (filter (\<lambda>ev. ev = Next_chunk)
     (concat (map (\<lambda>s. Next_chunk #
                      (case s of None \<Rightarrow> []
                       | Some n \<Rightarrow> [Print (lit ''Uploaded '' @ str_int n @ lit ''%'')]))
                statuses))) = length statuses"
  by (induction statuses) (auto split: option.splits)

lemma next_chunks_get_youtube_client:
  "filter (\<lambda>ev. ev = Next_chunk) (snd (get_youtube_client w)) = []"
  by (auto simp: get_youtube_client_def load_creds_def renew_def
           split: sum.splits option.splits prod.splits if_splits)

text \<open>
  C8. Take a run that reaches the upload and in which \<^verbatim>\<open>next_chunk\<close> returns some
  statuses with no response and then raises an \<^verbatim>\<open>HttpError\<close>. The loop ends with that
  exception and no response. The run prints the start line, one progress line for each
  status, the line \<open>HTTP Error: ...\<close> and \<open>The upload failed.\<close>, and no line
  \<open>Video ID: ...\<close>; \<^verbatim>\<open>next_chunk\<close> is not called again after the failure; and the run
  ends in \<^verbatim>\<open>sys.exit(1)\<close>, exit status 1.
\<close>

theorem http_error_ends_upload_with_status_1:
  assumes "parse_args argv = Inr args"
    and "path_exists w (args_video args)"
    and "fst (get_youtube_client w) = Inr yt"
    and "next_chunk w = map (\<lambda>s. Chunk s None) statuses @ Raises (HttpError e) # rest"
  shows "fst (upload_loop (next_chunk w)) = Some (Inl (HttpError e))
       \<and> fst (main w argv) = Some (Inl (SystemExit_int 1))
       \<and> run_status (main w argv) = Some 1
       \<and> printed (snd (main w argv)) =
            lit ''Starting upload...'' #
            concat (map (\<lambda>s. case s of None \<Rightarrow> []
                             | Some n \<Rightarrow> [lit ''Uploaded '' @ str_int n @ lit ''%'']) statuses) @
            [lit ''HTTP Error: '' @ e, lit ''The upload failed.'']
       \<and> (\<forall>v. lit ''Video ID: '' @ v \<notin> set (printed (snd (main w argv))))
       \<and> length (filter (\<lambda>ev. ev = Next_chunk) (snd (main w argv))) = Suc (length statuses)"
proof -
  let ?tr = "concat (map (\<lambda>s. Next_chunk #
                      (case s of None \<Rightarrow> []
                       | Some n \<Rightarrow> [Print (lit ''Uploaded '' @ str_int n @ lit ''%'')]))
                statuses)"
  let ?lines = "concat (map (\<lambda>s. case s of None \<Rightarrow> []
                             | Some n \<Rightarrow> [lit ''Uploaded '' @ str_int n @ lit ''%'']) statuses)"
  obtain tr0 where g: "get_youtube_client w = (Inr yt, tr0)"
    using assms(3) by (cases "get_youtube_client w") simp
  have p0: "printed tr0 = []" using printed_get_youtube_client [of w] g by simp
  have n0: "filter (\<lambda>ev. ev = Next_chunk) tr0 = []"
    using next_chunks_get_youtube_client [of w] g by simp
  have l: "upload_loop (next_chunk w) = (Some (Inl (HttpError e)), ?tr @ [Next_chunk])"
    unfolding assms(4) by (rule upload_loop_raises)
  have m: "main w argv =
             (Some (Inl (SystemExit_int 1)),
              tr0 @ [Videos_insert (lit ''snippet,status'')
                       (upload_body (main_title args) (args_description args)
                          (if main_tags args \<noteq> [] then Some (main_tags args) else None)
                          (args_privacy args))
                       \<lparr>filename = args_video args, chunksize = Some (- 1), resumable = True\<rparr>,
                     Print (lit ''Starting upload...'')] @
              ?tr @ [Next_chunk, Print (lit ''HTTP Error: '' @ e),
                     Print (lit ''The upload failed.'')])"
    using assms(1,2) g l by (simp add: main_def upload_video_def report_def Let_def)
  have 1: "fst (upload_loop (next_chunk w)) = Some (Inl (HttpError e))" using l by simp
  have 2: "fst (main w argv) = Some (Inl (SystemExit_int 1))" using m by simp
  have 3: "run_status (main w argv) = Some 1" using m by (simp add: run_status_def)
  have 4: "printed (snd (main w argv)) =
             lit ''Starting upload...'' # ?lines @
             [lit ''HTTP Error: '' @ e, lit ''The upload failed.'']"
    unfolding m by (simp add: printed_append p0 printed_progress)
  have 5: "lit ''Video ID: '' @ v \<notin> set (printed (snd (main w argv)))" for v
    unfolding 4 by (auto split: option.splits)
  have 6: "length (filter (\<lambda>ev. ev = Next_chunk) (snd (main w argv))) = Suc (length statuses)"
    unfolding m by (simp add: n0 next_chunks_progress)
  from 1 2 3 4 5 6 show ?thesis by blast
qed

theorem http_error_ends_upload_with_status_1_witness:
  "run_status (main (demo_world\<lparr>next_chunk := [Chunk (Some 50) None,
                                                Raises (HttpError (lit ''503''))]\<rparr>) demo_argv)
     = Some 1
   \<and> printed (snd (main (demo_world\<lparr>next_chunk := [Chunk (Some 50) None,
                                                Raises (HttpError (lit ''503''))]\<rparr>) demo_argv))
     = [lit ''Starting upload...'', lit ''Uploaded 50%'', lit ''HTTP Error: 503'',
        lit ''The upload failed.'']"
proof -
  let ?w = "demo_world\<lparr>next_chunk := [Chunk (Some 50) None, Raises (HttpError (lit ''503''))]\<rparr>"
  let ?a = "\<lparr>args_video = lit ''demo.mp4'', args_title = None, args_description = [],
              args_tags = [], args_privacy = lit ''private''\<rparr>"
  have 1: "parse_args demo_argv = Inr ?a" by (rule demo_parse)
  have 2: "path_exists ?w (args_video ?a)" by (simp add: demo_world_def)
  have 3: "fst (get_youtube_client ?w) = Inr (Youtube demo_creds)"
    by (simp add: get_youtube_client_def load_creds_def demo_world_def demo_creds_def
          token_json_def valid_def)
  have 4: "next_chunk ?w = map (\<lambda>s. Chunk s None) [Some 50] @ Raises (HttpError (lit ''503'')) # []"
    by simp
  from http_error_ends_upload_with_status_1 [OF 1 2 3 4]
  have "run_status (main ?w demo_argv) = Some 1
        \<and> printed (snd (main ?w demo_argv)) =
            lit ''Starting upload...'' #
            concat (map (\<lambda>s. case s of None \<Rightarrow> []
                             | Some n \<Rightarrow> [lit ''Uploaded '' @ str_int n @ lit ''%'']) [Some 50]) @
            [lit ''HTTP Error: '' @ lit ''503'', lit ''The upload failed.'']"
    by blast
  then show ?thesis by (simp add: str_int_def str_nat.simps)
qed

end
